theory Spec2Isabelle
  imports Main "HOL-Library.AList"
begin

section \<open>Thinking Workshop: the client's streaming reducer and polling fallback\<close>

text \<open>
  The development embeds the streaming part of the hook \<open>useWorkshop\<close>
  (\<open>frontend/src/lib/hooks/use-workshop.ts\<close>, \<open>createSessionWithStreaming\<close>) and
  \<open>pollSessionUntilComplete\<close> of the workshop API client.  JavaScript values are
  modelled by their HOL counterparts: strings are \<open>string\<close>, an absent or \<open>null\<close>
  JSON field is \<open>None\<close>, the insertion-ordered \<open>Map\<close> is an association list whose
  keys are pairwise distinct, and React state is a field of an explicit state record.
\<close>

subsection \<open>Data model\<close>

text \<open>\<open>ToolCall\<close> of \<open>lib/types/workshop.ts\<close>; the input is an opaque JSON text.\<close>

record tool_call =
  tool :: string
  tool_input :: string
  tool_output :: string

text \<open>\<open>AgentMessage\<close>, \<open>SessionStatus\<close> and \<open>WorkshopSession\<close> of \<open>lib/types/workshop.ts\<close>.\<close>

record agent_message =
  msg_agent_id :: string
  msg_agent_name :: string
  msg_content :: string
  msg_round_number :: nat
  msg_timestamp :: string
  msg_tool_calls :: "tool_call list"

datatype session_status = created | in_progress | completed | failed

record workshop_session =
  ws_id :: string
  ws_notebook_id :: string
  ws_mode :: string
  ws_topic :: string
  ws_status :: session_status
  ws_messages :: "agent_message list"
  ws_final_report :: "string option"
  ws_created :: string
  ws_updated :: string
  ws_total_rounds :: nat
  ws_agent_count :: nat

text \<open>
  \<open>StreamingMessage\<close> of the hook.  \<open>tool_calls\<close> is an optional field: the records
  built on \<open>agent_start\<close> and \<open>agent_chunk\<close> do not have it.
\<close>

record streaming_message =
  agent_id :: string
  agent_name :: string
  content :: string
  round_number :: nat
  timestamp :: string
  isComplete :: bool
  tool_calls :: "tool_call list option"

text \<open>
  The object \<open>data\<close> that \<open>JSON.parse\<close> returns, restricted to the fields the hook
  reads.  A field that is absent (or \<open>null\<close>) is \<open>None\<close>.  Round numbers are the
  1-based naturals of the data model; the hook's own test \<open>data.round\<close> rejects 0.
\<close>

record payload =
  data_session_id :: "string option"
  data_agent_id :: "string option"
  data_round :: "nat option"
  data_chunk :: "string option"
  data_content :: "string option"
  data_tool_calls :: "tool_call list option"
  data_timestamp :: "string option"
  data_error :: "string option"

text \<open>JavaScript truthiness of an optional string and of an optional number.\<close>

fun truthy_str :: "string option \<Rightarrow> bool" where
  "truthy_str None = False"
| "truthy_str (Some s) = (s \<noteq> [])"

fun truthy_num :: "nat option \<Rightarrow> bool" where
  "truthy_num None = False"
| "truthy_num (Some n) = (n \<noteq> 0)"

text \<open>\<open>a || b\<close> on an optional string with a string default.\<close>

fun or_str :: "string option \<Rightarrow> string \<Rightarrow> string" where
  "or_str None d = d"
| "or_str (Some s) d = (if s = [] then d else s)"

text \<open>\<open>data.tool_calls || []\<close>: an array, also the empty one, is truthy.\<close>

fun or_tool_calls :: "tool_call list option \<Rightarrow> tool_call list" where
  "or_tool_calls None = []"
| "or_tool_calls (Some ts) = ts"

subsection \<open>Strings\<close>

text \<open>The decimal rendering of a number inside a template literal.\<close>

definition digit_char :: "nat \<Rightarrow> char" where
  "digit_char n = ''0123456789'' ! (n mod 10)"

fun string_of_nat :: "nat \<Rightarrow> string" where
  "string_of_nat n =
     (if n < 10 then [digit_char n] else string_of_nat (n div 10) @ [digit_char (n mod 10)])"

declare string_of_nat.simps [simp del]

text \<open>The key \<open>`${data.agent_id}-${data.round}`\<close>.\<close>

definition key_of :: "string \<Rightarrow> nat \<Rightarrow> string" where
  "key_of a r = a @ ''-'' @ string_of_nat r"

text \<open>\<open>line.startsWith(p)\<close>, and \<open>s.trim()\<close> on the ASCII white space.\<close>

definition startsWith :: "string \<Rightarrow> string \<Rightarrow> bool" where
  "startsWith line p = (take (length p) line = p)"

definition is_space :: "char \<Rightarrow> bool" where
  "is_space c = (c \<in> set [CHR '' '', CHR 0x09, CHR 0x0A, CHR 0x0B, CHR 0x0C, CHR 0x0D])"

definition trim :: "string \<Rightarrow> string" where
  "trim s = rev (dropWhile is_space (rev (dropWhile is_space s)))"

text \<open>\<open>chunk.split('\n')\<close>: the result always has at least one element.\<close>

fun split_lines :: "string \<Rightarrow> string list" where
  "split_lines [] = [[]]"
| "split_lines (c # cs) =
     (if c = CHR 0x0A then [] # split_lines cs
      else (case split_lines cs of
              [] \<Rightarrow> [[c]]
            | l # ls \<Rightarrow> (c # l) # ls))"

subsection \<open>The map of streaming messages\<close>

text \<open>
  \<open>Map<string, StreamingMessage>\<close> in insertion order.  \<open>Map.set\<close> replaces the value
  of a key in place and appends a new key at the end, which is \<open>AList.update\<close>.
\<close>

type_synonym streaming_map = "(string \<times> streaming_message) list"

definition map_has :: "string \<Rightarrow> streaming_map \<Rightarrow> bool" where
  "map_has k m = (map_of m k \<noteq> None)"

definition map_get :: "string \<Rightarrow> streaming_map \<Rightarrow> streaming_message option" where
  "map_get k m = map_of m k"

definition map_set :: "string \<Rightarrow> streaming_message \<Rightarrow> streaming_map \<Rightarrow> streaming_map" where
  "map_set k v m = AList.update k v m"

text \<open>The updater passed to \<open>setStreamingMessages\<close> on \<open>agent_start\<close>.\<close>

definition on_agent_start :: "string \<Rightarrow> string \<Rightarrow> nat \<Rightarrow> streaming_map \<Rightarrow> streaming_map" where
  "on_agent_start now a r prev =
     (let key = key_of a r in
      if \<not> map_has key prev
      then map_set key \<lparr>agent_id = a, agent_name = a, content = [], round_number = r,
                        timestamp = now, isComplete = False, tool_calls = None\<rparr> prev
      else prev)"

text \<open>The updater on \<open>agent_chunk\<close>.\<close>

definition on_agent_chunk ::
  "string \<Rightarrow> string \<Rightarrow> nat \<Rightarrow> string \<Rightarrow> streaming_map \<Rightarrow> streaming_map" where
  "on_agent_chunk now a r chunk prev =
     (let key = key_of a r in
      case map_get key prev of
        Some existing \<Rightarrow>
          map_set key (existing\<lparr>content := content existing @ chunk, timestamp := now\<rparr>) prev
      | None \<Rightarrow>
          map_set key \<lparr>agent_id = a, agent_name = a, content = chunk, round_number = r,
                       timestamp = now, isComplete = False, tool_calls = None\<rparr> prev)"

text \<open>The updater on \<open>agent_complete\<close>.\<close>

definition on_agent_complete ::
  "string \<Rightarrow> string \<Rightarrow> nat \<Rightarrow> payload \<Rightarrow> streaming_map \<Rightarrow> streaming_map" where
  "on_agent_complete now a r d prev =
     (let key = key_of a r in
      case map_get key prev of
        Some existing \<Rightarrow>
          map_set key (existing\<lparr>content := or_str (data_content d) (content existing),
                                tool_calls := Some (or_tool_calls (data_tool_calls d)),
                                timestamp := or_str (data_timestamp d) (timestamp existing),
                                isComplete := True\<rparr>) prev
      | None \<Rightarrow>
          map_set key \<lparr>agent_id = a, agent_name = a,
                       content = or_str (data_content d) [],
                       round_number = r,
                       timestamp = or_str (data_timestamp d) now,
                       isComplete = True,
                       tool_calls = Some (or_tool_calls (data_tool_calls d))\<rparr> prev)"

text \<open>The updater on \<open>session_complete\<close>: every entry is set again with the flag raised.\<close>

definition mark_all_complete :: "streaming_map \<Rightarrow> streaming_map" where
  "mark_all_complete prev = map (\<lambda>(key, msg). (key, msg\<lparr>isComplete := True\<rparr>)) prev"

subsection \<open>The state of one streaming run\<close>

datatype toast = ToastSuccess string | ToastError string

text \<open>
  The React state of the hook that the streaming code writes, the two local variables
  \<open>sessionId\<close> and \<open>currentEventType\<close> of the running call, and a trace of its
  effects: the toasts shown, the number of \<open>console.error\<close> calls, the \<open>getSession\<close>
  requests made (oldest first), the query cache under \<open>['workshop-session', id]\<close>, the
  number of \<open>refetchSessions\<close> calls and the calls of \<open>startPolling\<close>.
\<close>

record client_state =
  streamingMessages :: streaming_map
  currentSessionId :: "string option"
  isStreaming :: bool
  sessionId :: string
  currentEventType :: string
  toasts :: "toast list"
  console_errors :: nat
  fetched :: "string list"
  queryData :: "(string \<times> workshop_session) list"
  refetchSessions_calls :: nat
  polling_started :: "string list"

text \<open>
  The server's answers to \<open>getSession\<close>: the answer to the request number \<open>n\<close> (the
  caller counts its requests from 0) for a session id, \<open>None\<close> when the request is
  rejected.
\<close>

type_synonym session_server = "nat \<Rightarrow> string \<Rightarrow> workshop_session option"

text \<open>What \<open>JSON.parse\<close> returns: \<open>null\<close>, or a value whose fields can be read.\<close>

datatype json_value = JsonNull | JsonObject payload

text \<open>\<open>currentEventType = ''\<close> at the end of the \<open>try\<close> block.\<close>

definition reset_event_type :: "client_state \<Rightarrow> client_state" where
  "reset_event_type st = st\<lparr>currentEventType := []\<rparr>"

text \<open>The \<open>catch (e)\<close> of the \<open>try\<close> block around one data line: it only logs.\<close>

definition log_parse_error :: "client_state \<Rightarrow> client_state" where
  "log_parse_error st = st\<lparr>console_errors := Suc (console_errors st)\<rparr>"

text \<open>
  The body of the \<open>try\<close> block after \<open>JSON.parse\<close> returned the object \<open>d\<close>: the chain
  of \<open>if\<close>/\<open>else if\<close> on the event type, then the reset of the event type.  When
  \<open>getSession\<close> rejects, the exception leaves the block before the reset.
\<close>

definition handle_data :: "session_server \<Rightarrow> string \<Rightarrow> payload \<Rightarrow> client_state \<Rightarrow> client_state" where
  "handle_data getSession now d st =
     (let ty = currentEventType st in
      if ty = ''session_created'' \<and> truthy_str (data_session_id d) then
        reset_event_type (st\<lparr>sessionId := the (data_session_id d),
                             currentSessionId := data_session_id d\<rparr>)
      else if ty = ''agent_start'' \<and> truthy_str (data_agent_id d) \<and> truthy_num (data_round d) then
        reset_event_type (st\<lparr>streamingMessages :=
          on_agent_start now (the (data_agent_id d)) (the (data_round d)) (streamingMessages st)\<rparr>)
      else if ty = ''agent_chunk'' \<and> truthy_str (data_agent_id d) \<and> truthy_num (data_round d)
              \<and> truthy_str (data_chunk d) then
        reset_event_type (st\<lparr>streamingMessages :=
          on_agent_chunk now (the (data_agent_id d)) (the (data_round d)) (the (data_chunk d))
            (streamingMessages st)\<rparr>)
      else if ty = ''agent_complete'' \<and> truthy_str (data_agent_id d) \<and> truthy_num (data_round d) then
        reset_event_type (st\<lparr>streamingMessages :=
          on_agent_complete now (the (data_agent_id d)) (the (data_round d)) d (streamingMessages st)\<rparr>)
      else if ty = ''session_complete'' \<and> truthy_str (data_session_id d) then
        (let st1 = st\<lparr>toasts := toasts st @ [ToastSuccess ''Discussion completed!''],
                       streamingMessages := mark_all_complete (streamingMessages st)\<rparr>
         in if sessionId st1 \<noteq> [] then
              (let st2 = st1\<lparr>fetched := fetched st1 @ [sessionId st1]\<rparr>
               in case getSession (length (fetched st1)) (sessionId st1) of
                    None \<Rightarrow> log_parse_error st2
                  | Some finalSession \<Rightarrow>
                      reset_event_type
                        (st2\<lparr>queryData := AList.update (sessionId st1) finalSession (queryData st2),
                             refetchSessions_calls := Suc (refetchSessions_calls st2)\<rparr>))
            else reset_event_type st1)
      else if ty = ''error'' \<and> truthy_str (data_error d) then
        reset_event_type (st\<lparr>console_errors := Suc (console_errors st),
          toasts := toasts st @ [ToastError (''Streaming error: '' @ the (data_error d))]\<rparr>)
      else reset_event_type st)"

text \<open>
  \<open>JSON.parse\<close> returned \<open>null\<close>: the first test whose event type matches reads a
  property of \<open>null\<close> and throws; with no matching type nothing is read.
\<close>

definition handle_null :: "client_state \<Rightarrow> client_state" where
  "handle_null st =
     (if currentEventType st \<in> set [''session_created'', ''agent_start'', ''agent_chunk'',
                                     ''agent_complete'', ''session_complete'', ''error'']
      then log_parse_error st else reset_event_type st)"

text \<open>
  The body of \<open>for (const line of lines)\<close>.  \<open>json_parse\<close> stands for \<open>JSON.parse\<close>,
  \<open>None\<close> when it throws; \<open>now\<close> is the reading of \<open>new Date().toISOString()\<close> while
  the line is handled.
\<close>

definition process_line ::
  "(string \<Rightarrow> json_value option) \<Rightarrow> session_server \<Rightarrow> string \<Rightarrow> string \<Rightarrow> client_state
     \<Rightarrow> client_state" where
  "process_line json_parse getSession now line st =
     (if startsWith line ''event:'' then st\<lparr>currentEventType := trim (drop 6 line)\<rparr>
      else if startsWith line ''data:'' then
        (let dataStr = trim (drop 5 line) in
         if dataStr = [] then st
         else case json_parse dataStr of
                None \<Rightarrow> log_parse_error st
              | Some JsonNull \<Rightarrow> handle_null st
              | Some (JsonObject d) \<Rightarrow> handle_data getSession now d st)
      else st)"

text \<open>The \<open>for\<close> loop over the lines of one chunk, each with its clock reading.\<close>

fun process_lines ::
  "(string \<Rightarrow> json_value option) \<Rightarrow> session_server \<Rightarrow> (string \<times> string) list \<Rightarrow> client_state
     \<Rightarrow> client_state" where
  "process_lines json_parse getSession [] st = st"
| "process_lines json_parse getSession ((now, line) # rest) st =
     process_lines json_parse getSession rest (process_line json_parse getSession now line st)"

definition process_chunk ::
  "(string \<Rightarrow> json_value option) \<Rightarrow> session_server \<Rightarrow> (nat \<Rightarrow> string) \<Rightarrow> string \<Rightarrow> client_state
     \<Rightarrow> client_state" where
  "process_chunk json_parse getSession clock chunk st =
     (let lines = split_lines chunk
      in process_lines json_parse getSession (zip (map clock [0..<length lines]) lines) st)"

text \<open>
  What \<open>await reader.read()\<close> gives: a decoded chunk (with the clock readings for its
  lines), the end of the stream, or an exception (an abort or another error).
\<close>

datatype js_error = AbortError | OtherError

datatype read_result = Value "nat \<Rightarrow> string" string | Done | ReadThrows js_error

datatype loop_exit = StreamDone | Thrown js_error | Pending

text \<open>
  The loop \<open>while (true)\<close>: it ends on \<open>done\<close> or on an exception of \<open>read\<close>, and on
  nothing else.  When the reads so far are used up the call is still waiting.
\<close>

fun read_loop ::
  "(string \<Rightarrow> json_value option) \<Rightarrow> session_server \<Rightarrow> read_result list \<Rightarrow> client_state
     \<Rightarrow> loop_exit \<times> client_state" where
  "read_loop json_parse getSession [] st = (Pending, st)"
| "read_loop json_parse getSession (Done # rs) st = (StreamDone, st)"
| "read_loop json_parse getSession (ReadThrows e # rs) st = (Thrown e, st)"
| "read_loop json_parse getSession (Value clock chunk # rs) st =
     read_loop json_parse getSession rs (process_chunk json_parse getSession clock chunk st)"

subsection \<open>The streaming call and its fallback\<close>

text \<open>What \<open>await fetch(...)\<close> gives: an exception, or a response with its \<open>ok\<close> flag
  and the reads of its body (\<open>None\<close> when \<open>response.body\<close> is null).\<close>

datatype connection = FetchThrows js_error | Response bool "read_result list option"

text \<open>\<open>stopStreaming\<close>, as far as the state of this model goes.\<close>

definition stopStreaming :: "client_state \<Rightarrow> client_state" where
  "stopStreaming st = st\<lparr>isStreaming := False, streamingMessages := []\<rparr>"

text \<open>
  The outer \<open>catch (error)\<close>.  \<open>currentSessionId\<close> there is the constant of the render
  in which the callback was created, so it is the value \<open>captured\<close> that the state had
  when the call began; \<open>setCurrentSessionId\<close> during the call does not change it.
\<close>

definition on_stream_error :: "string option \<Rightarrow> js_error \<Rightarrow> client_state \<Rightarrow> client_state" where
  "on_stream_error captured e st =
     (case e of
        AbortError \<Rightarrow> st
      | OtherError \<Rightarrow>
          (let st1 = st\<lparr>console_errors := Suc (console_errors st),
                         toasts := toasts st @ [ToastError ''Streaming error, falling back to polling...'']\<rparr>
           in if truthy_str captured
              then st1\<lparr>polling_started := polling_started st1 @ [the captured]\<rparr>
              else st1))"

text \<open>
  \<open>createSessionWithStreaming\<close> on a given connection.  The \<open>finally\<close> block runs once
  the \<open>try\<close> block has ended; while the loop still waits for a read it has not run.
\<close>

definition createSessionWithStreaming ::
  "(string \<Rightarrow> json_value option) \<Rightarrow> session_server \<Rightarrow> connection \<Rightarrow> client_state \<Rightarrow> client_state" where
  "createSessionWithStreaming json_parse getSession conn hook =
     (let captured = currentSessionId hook;
          st0 = (stopStreaming hook)\<lparr>isStreaming := True, streamingMessages := [],
                                     sessionId := [], currentEventType := []\<rparr>;
          (ex, st1) =
            (case conn of
               FetchThrows e \<Rightarrow> (Thrown e, st0)
             | Response ok body \<Rightarrow>
                 if \<not> ok then (Thrown OtherError, st0)
                 else (case body of
                         None \<Rightarrow> (Thrown OtherError, st0)
                       | Some reads \<Rightarrow> read_loop json_parse getSession reads st0))
      in case ex of
           Pending \<Rightarrow> st1
         | StreamDone \<Rightarrow> st1\<lparr>isStreaming := False\<rparr>
         | Thrown e \<Rightarrow> (on_stream_error captured e st1)\<lparr>isStreaming := False\<rparr>)"

text \<open>The state of a hook that has just been mounted.\<close>

definition initial_state :: client_state where
  "initial_state =
     \<lparr>streamingMessages = [], currentSessionId = None, isStreaming = False, sessionId = [],
      currentEventType = [], toasts = [], console_errors = 0, fetched = [], queryData = [],
      refetchSessions_calls = 0, polling_started = []\<rparr>"

subsection \<open>Polling\<close>

datatype poll_outcome = Resolved workshop_session | Rejected

text \<open>
  \<open>pollSessionUntilComplete\<close>: the inner \<open>poll\<close> fetches the session, reports it to
  \<open>onUpdate\<close>, returns it when its status is \<open>completed\<close> or \<open>failed\<close> and otherwise
  waits and polls again.  \<open>n\<close> counts the requests made, \<open>updates\<close> collects what
  \<open>onUpdate\<close> received.  The recursion has no bound: a call that never returns is
  \<open>None\<close>.
\<close>

partial_function (option) poll ::
  "session_server \<Rightarrow> string \<Rightarrow> nat \<Rightarrow> workshop_session list
     \<Rightarrow> (poll_outcome \<times> nat \<times> workshop_session list) option" where
  "poll getSession sid n updates =
     (case getSession n sid of
        None \<Rightarrow> Some (Rejected, Suc n, updates)
      | Some session \<Rightarrow>
          if ws_status session = completed \<or> ws_status session = failed
          then Some (Resolved session, Suc n, updates @ [session])
          else poll getSession sid (Suc n) (updates @ [session]))"

definition pollSessionUntilComplete ::
  "session_server \<Rightarrow> string \<Rightarrow> (poll_outcome \<times> nat \<times> workshop_session list) option" where
  "pollSessionUntilComplete getSession sid = poll getSession sid 0 []"

subsection \<open>Events\<close>

text \<open>
  An event as the loop sees it: the line \<open>event: ty\<close> followed by a line \<open>data: ...\<close>
  whose text parses to the object \<open>d\<close>, handled while the clock reads \<open>now\<close>.
\<close>

type_synonym event = "string \<times> string \<times> payload"

definition apply_event :: "session_server \<Rightarrow> event \<Rightarrow> client_state \<Rightarrow> client_state" where
  "apply_event getSession ev st =
     (case ev of (now, ty, d) \<Rightarrow> handle_data getSession now d (st\<lparr>currentEventType := ty\<rparr>))"

fun apply_events :: "session_server \<Rightarrow> event list \<Rightarrow> client_state \<Rightarrow> client_state" where
  "apply_events getSession [] st = st"
| "apply_events getSession (ev # evs) st = apply_events getSession evs (apply_event getSession ev st)"

text \<open>The chunks of a stream in turn, as the loop handles them between two reads.\<close>

fun process_chunks ::
  "(string \<Rightarrow> json_value option) \<Rightarrow> session_server \<Rightarrow> ((nat \<Rightarrow> string) \<times> string) list
     \<Rightarrow> client_state \<Rightarrow> client_state" where
  "process_chunks json_parse getSession [] st = st"
| "process_chunks json_parse getSession ((clock, chunk) # cs) st =
     process_chunks json_parse getSession cs (process_chunk json_parse getSession clock chunk st)"

text \<open>
  What one event does to the map of streaming messages alone: the updaters that
  \<open>handle_data\<close> passes to \<open>setStreamingMessages\<close>, by event type.
\<close>

definition reduce_messages :: "event \<Rightarrow> streaming_map \<Rightarrow> streaming_map" where
  "reduce_messages ev m =
     (case ev of (now, ty, d) \<Rightarrow>
        if ty = ''agent_start'' \<and> truthy_str (data_agent_id d) \<and> truthy_num (data_round d) then
          on_agent_start now (the (data_agent_id d)) (the (data_round d)) m
        else if ty = ''agent_chunk'' \<and> truthy_str (data_agent_id d) \<and> truthy_num (data_round d)
                \<and> truthy_str (data_chunk d) then
          on_agent_chunk now (the (data_agent_id d)) (the (data_round d)) (the (data_chunk d)) m
        else if ty = ''agent_complete'' \<and> truthy_str (data_agent_id d) \<and> truthy_num (data_round d) then
          on_agent_complete now (the (data_agent_id d)) (the (data_round d)) d m
        else if ty = ''session_complete'' \<and> truthy_str (data_session_id d) then
          mark_all_complete m
        else m)"

text \<open>An \<open>agent_start\<close>, \<open>agent_chunk\<close> or \<open>agent_complete\<close> event of the key \<open>(a, r)\<close>.\<close>

definition for_key :: "string \<Rightarrow> nat \<Rightarrow> event \<Rightarrow> bool" where
  "for_key a r ev =
     (case ev of (now, ty, d) \<Rightarrow>
        ty \<in> set [''agent_start'', ''agent_chunk'', ''agent_complete'']
        \<and> data_agent_id d = Some a \<and> data_round d = Some r)"

text \<open>The object with no field set, and the payloads of the event table.\<close>

definition no_fields :: payload where
  "no_fields = \<lparr>data_session_id = None, data_agent_id = None, data_round = None,
                 data_chunk = None, data_content = None, data_tool_calls = None,
                 data_timestamp = None, data_error = None\<rparr>"

definition session_payload :: "string \<Rightarrow> payload" where
  "session_payload sid = no_fields\<lparr>data_session_id := Some sid\<rparr>"

definition start_payload :: "string \<Rightarrow> nat \<Rightarrow> payload" where
  "start_payload a r = no_fields\<lparr>data_agent_id := Some a, data_round := Some r\<rparr>"

definition chunk_payload :: "string \<Rightarrow> nat \<Rightarrow> string \<Rightarrow> payload" where
  "chunk_payload a r c = no_fields\<lparr>data_agent_id := Some a, data_round := Some r, data_chunk := Some c\<rparr>"

definition complete_payload :: "string \<Rightarrow> nat \<Rightarrow> string \<Rightarrow> tool_call list \<Rightarrow> string \<Rightarrow> payload" where
  "complete_payload a r c ts t =
     no_fields\<lparr>data_agent_id := Some a, data_round := Some r, data_content := Some c,
               data_tool_calls := Some ts, data_timestamp := Some t\<rparr>"

definition error_payload :: "string \<Rightarrow> payload" where
  "error_payload msg = no_fields\<lparr>data_error := Some msg\<rparr>"

text \<open>
  \<open>JSON.parse\<close> on the few texts that the examples below send; every other text is
  taken as malformed there.
\<close>

definition sample_parse :: "string \<Rightarrow> json_value option" where
  \<open>sample_parse s =
     (if s = ''{"session_id":"s1"}'' then Some (JsonObject (session_payload ''s1''))
      else if s = ''{"agent_id":"A","round":1}'' then Some (JsonObject (start_payload ''A'' 1))
      else if s = ''{"agent_id":"A","round":1,"chunk":"Hello"}''
        then Some (JsonObject (chunk_payload ''A'' 1 ''Hello''))
      else if s = ''{"error":"boom"}'' then Some (JsonObject (error_payload ''boom''))
      else if s = ''null'' then Some JsonNull
      else None)\<close>

definition sample_server :: session_server where
  "sample_server n sid =
     Some \<lparr>ws_id = sid, ws_notebook_id = ''nb'', ws_mode = ''dialectical_mode'', ws_topic = ''t'',
           ws_status = (if n < 2 then in_progress else completed), ws_messages = [],
           ws_final_report = None, ws_created = ''c'', ws_updated = ''u'',
           ws_total_rounds = 1, ws_agent_count = 3\<rparr>"

definition sample_clock :: "nat \<Rightarrow> string" where
  "sample_clock i = ''T'' @ string_of_nat i"

section \<open>Properties of the reducer\<close>

subsection \<open>Reading the map after an update\<close>

lemma map_get_set: "map_get k (map_set k' v m) = (if k = k' then Some v else map_get k m)"
  by (simp add: map_get_def map_set_def update_conv')

lemma map_get_mark_all: "map_get k (mark_all_complete m) = map_option (\<lambda>msg. msg\<lparr>isComplete := True\<rparr>) (map_get k m)"
  unfolding map_get_def mark_all_complete_def
  by (induction m) auto

lemma map_has_get: "map_has k m = (map_get k m \<noteq> None)"
  by (simp add: map_has_def map_get_def)

lemma map_get_start:
  "map_get k (on_agent_start now a r m) =
     (if k = key_of a r \<and> map_get k m = None
      then Some \<lparr>agent_id = a, agent_name = a, content = [], round_number = r,
                 timestamp = now, isComplete = False, tool_calls = None\<rparr>
      else map_get k m)"
  by (auto simp: on_agent_start_def Let_def map_get_set map_has_get)

lemma map_get_chunk:
  "map_get k (on_agent_chunk now a r c m) =
     (if k = key_of a r
      then (case map_get k m of
              Some existing \<Rightarrow> Some (existing\<lparr>content := content existing @ c, timestamp := now\<rparr>)
            | None \<Rightarrow> Some \<lparr>agent_id = a, agent_name = a, content = c, round_number = r,
                       timestamp = now, isComplete = False, tool_calls = None\<rparr>)
      else map_get k m)"
  by (auto simp: on_agent_chunk_def Let_def map_get_set split: option.splits)

lemma map_get_complete:
  "map_get k (on_agent_complete now a r d m) =
     (if k = key_of a r
      then (case map_get k m of
              Some existing \<Rightarrow>
                Some (existing\<lparr>content := or_str (data_content d) (content existing),
                                tool_calls := Some (or_tool_calls (data_tool_calls d)),
                                timestamp := or_str (data_timestamp d) (timestamp existing),
                                isComplete := True\<rparr>)
            | None \<Rightarrow> Some \<lparr>agent_id = a, agent_name = a,
                       content = or_str (data_content d) [],
                       round_number = r,
                       timestamp = or_str (data_timestamp d) now,
                       isComplete = True,
                       tool_calls = Some (or_tool_calls (data_tool_calls d))\<rparr>)
      else map_get k m)"
  by (auto simp: on_agent_complete_def Let_def map_get_set split: option.splits)

lemma sm_handle_data:
  "streamingMessages (handle_data gs now d st) =
     reduce_messages (now, currentEventType st, d) (streamingMessages st)"
  by (simp add: handle_data_def reduce_messages_def Let_def reset_event_type_def log_parse_error_def
           split: option.splits)

lemma sm_apply_event:
  "streamingMessages (apply_event gs ev st) = reduce_messages ev (streamingMessages st)"
  by (cases ev) (simp add: apply_event_def sm_handle_data)

lemma sm_apply_events:
  "streamingMessages (apply_events gs evs st) = fold reduce_messages evs (streamingMessages st)"
  by (induction evs arbitrary: st) (simp_all add: sm_apply_event)

lemma start_local:
  "map_get k m = map_get k m' \<Longrightarrow> map_get k (on_agent_start now a r m) = map_get k (on_agent_start now a r m')"
  by (cases "k = key_of a r") (simp_all add: map_get_start)

lemma chunk_local:
  "map_get k m = map_get k m' \<Longrightarrow> map_get k (on_agent_chunk now a r c m) = map_get k (on_agent_chunk now a r c m')"
  by (cases "k = key_of a r") (simp_all add: map_get_chunk)

lemma complete_local:
  "map_get k m = map_get k m' \<Longrightarrow> map_get k (on_agent_complete now a r d m) = map_get k (on_agent_complete now a r d m')"
  by (cases "k = key_of a r") (simp_all add: map_get_complete)

lemma mark_all_local:
  "map_get k m = map_get k m' \<Longrightarrow> map_get k (mark_all_complete m) = map_get k (mark_all_complete m')"
  by (simp add: map_get_mark_all)

lemma reduce_local:
  assumes "map_get k m = map_get k m'"
  shows "map_get k (reduce_messages ev m) = map_get k (reduce_messages ev m')"
proof (cases ev)
  case (fields now ty d)
  show ?thesis
    unfolding fields reduce_messages_def
    by (simp add: start_local [OF assms] chunk_local [OF assms] complete_local [OF assms]
          mark_all_local [OF assms] assms)
qed

lemma reduce_other:
  assumes "for_key a r ev" and "key_of a r \<noteq> k"
  shows "map_get k (reduce_messages ev m) = map_get k m"
proof (cases ev)
  case (fields now ty d)
  from assms(1) have ty: "ty \<noteq> ''session_complete''" and a: "data_agent_id d = Some a"
    and r: "data_round d = Some r"
    by (auto simp: for_key_def fields)
  from assms(2) have k: "k \<noteq> key_of a r" by blast
  show ?thesis
    unfolding fields reduce_messages_def
    by (simp add: ty a r k map_get_start map_get_chunk map_get_complete)
qed

subsection \<open>Replaying an event\<close>

lemma or_str_idem: "or_str c (or_str c x) = or_str c x"
  by (cases c) auto

lemma on_agent_start_idem:
  "on_agent_start now2 a r (on_agent_start now1 a r m) = on_agent_start now1 a r m"
proof -
  have "map_has (key_of a r) (on_agent_start now1 a r m)"
    by (simp add: map_has_get map_get_start)
  then show ?thesis
    by (simp add: on_agent_start_def [of now2] Let_def)
qed

lemma map_set_twice: "map_set k v (map_set k v' m) = map_set k v m"
  by (simp add: map_set_def update_last)

lemma on_agent_complete_as_set:
  "\<exists>rec. on_agent_complete now a r d m = map_set (key_of a r) rec m"
  by (cases "map_get (key_of a r) m") (auto simp: on_agent_complete_def Let_def)

lemma on_agent_complete_idem:
  "on_agent_complete now2 a r d (on_agent_complete now1 a r d m) = on_agent_complete now1 a r d m"
proof -
  let ?k = "key_of a r"
  let ?M = "on_agent_complete now1 a r d m"
  obtain rec1 where M: "?M = map_set ?k rec1 m"
    using on_agent_complete_as_set by blast
  then have get: "map_get ?k ?M = Some rec1"
    by (simp add: map_get_set)
  have same: "rec1\<lparr>content := or_str (data_content d) (content rec1),
                  tool_calls := Some (or_tool_calls (data_tool_calls d)),
                  timestamp := or_str (data_timestamp d) (timestamp rec1),
                  isComplete := True\<rparr> = rec1"
    using get by (cases "map_get ?k m") (auto simp: map_get_complete or_str_idem)
  have "on_agent_complete now2 a r d ?M = map_set ?k rec1 ?M"
    by (simp add: on_agent_complete_def [of now2] Let_def get same)
  also have "\<dots> = map_set ?k rec1 m"
    by (simp add: M map_set_twice)
  finally show ?thesis by (simp add: M)
qed

lemma reduce_start_idem:
  "reduce_messages (now2, ''agent_start'', d) (reduce_messages (now1, ''agent_start'', d) m)
     = reduce_messages (now1, ''agent_start'', d) m"
  by (simp add: reduce_messages_def on_agent_start_idem)

lemma reduce_complete_idem:
  "reduce_messages (now2, ''agent_complete'', d) (reduce_messages (now1, ''agent_complete'', d) m)
     = reduce_messages (now1, ''agent_complete'', d) m"
  by (simp add: reduce_messages_def on_agent_complete_idem)

text \<open>
  Claim C5.  Whatever the state of the reducer, handling the same \<open>agent_start\<close> event
  a second time, or the same \<open>agent_complete\<close> event a second time, leaves the map
  \<open>streamingMessages\<close> as the first handling left it (the same entries in the same
  order), even when the clock has moved on between the two.
\<close>

theorem replay_is_noop:
  "streamingMessages (apply_event gs (now2, ''agent_start'', d) (apply_event gs (now1, ''agent_start'', d) st))
     = streamingMessages (apply_event gs (now1, ''agent_start'', d) st)
   \<and> streamingMessages (apply_event gs (now2, ''agent_complete'', d) (apply_event gs (now1, ''agent_complete'', d) st))
     = streamingMessages (apply_event gs (now1, ''agent_complete'', d) st)"
  by (simp add: sm_apply_event reduce_start_idem reduce_complete_idem)

subsection \<open>Sequences of events and lines\<close>

lemma apply_events_append:
  "apply_events gs (xs @ ys) st = apply_events gs ys (apply_events gs xs st)"
  by (induction xs arbitrary: st) simp_all

lemma data_line_not_event: "startsWith line ''data:'' \<Longrightarrow> \<not> startsWith line ''event:''"
  by (cases line) (auto simp: startsWith_def)

lemma split_lines_single: "CHR 0x0A \<notin> set line \<Longrightarrow> split_lines line = [line]"
  by (induction line) auto

lemma console_errors_agent_complete:
  "truthy_str (data_agent_id d) \<Longrightarrow> truthy_num (data_round d) \<Longrightarrow>
   console_errors (apply_event gs (now, ''agent_complete'', d) st) = console_errors st"
  by (simp add: apply_event_def handle_data_def reset_event_type_def)

lemma map_get_empty: "map_get k [] = None"
  by (simp add: map_get_def)

lemma complete_record:
  assumes "a \<noteq> []" and "r \<noteq> 0"
    and "data_agent_id d = Some a" and "data_round d = Some r"
  shows "\<exists>rec. map_get (key_of a r) (reduce_messages (now, ''agent_complete'', d) m) = Some rec
           \<and> isComplete rec
           \<and> tool_calls rec = Some (or_tool_calls (data_tool_calls d))
           \<and> content rec = or_str (data_content d)
                (case map_get (key_of a r) m of None \<Rightarrow> [] | Some e \<Rightarrow> content e)"
  using assms
  by (cases "map_get (key_of a r) m") (simp_all add: reduce_messages_def map_get_complete)

subsection \<open>Events that arrive before their record exists\<close>

lemma ignored_chunk:
  "\<not> truthy_str (data_chunk d) \<Longrightarrow>
   streamingMessages (apply_event gs (now, ''agent_chunk'', d) st) = streamingMessages st"
  by (simp add: sm_apply_event reduce_messages_def)

text \<open>
  Claim C7, as the code has it.  Take a key with a non-empty \<open>agent_id\<close> and a round
  that is not 0, and a map with no record under it.  An \<open>agent_chunk\<close> event with a
  non-empty delta creates the record whose content is the delta, with \<open>isComplete\<close>
  false and no tool calls; an \<open>agent_chunk\<close> event whose delta is empty or absent fails
  the hook's test \<open>data.chunk\<close> and leaves the map as it is.  An \<open>agent_complete\<close>
  event creates the record from its payload, although no \<open>agent_start\<close> or
  \<open>agent_chunk\<close> came before: the payload's content, the payload's tool calls,
  \<open>isComplete\<close> true (an absent content is the empty string, absent tool calls the
  empty list, an absent or empty timestamp the clock's reading); no exception is raised,
  so nothing is logged.
\<close>

theorem out_of_order_arrival:
  assumes "a \<noteq> []" and "r \<noteq> 0"
    and "data_agent_id d = Some a" and "data_round d = Some r"
    and "map_get (key_of a r) (streamingMessages st) = None"
  shows "(\<forall>c. data_chunk d = Some c \<and> c \<noteq> [] \<longrightarrow>
            map_get (key_of a r) (streamingMessages (apply_event gs (now, ''agent_chunk'', d) st))
              = Some \<lparr>agent_id = a, agent_name = a, content = c, round_number = r,
                      timestamp = now, isComplete = False, tool_calls = None\<rparr>)
         \<and> (\<not> truthy_str (data_chunk d) \<longrightarrow>
              streamingMessages (apply_event gs (now, ''agent_chunk'', d) st) = streamingMessages st)
         \<and> (\<forall>c ts. data_content d = Some c \<and> data_tool_calls d = Some ts \<longrightarrow>
              map_get (key_of a r) (streamingMessages (apply_event gs (now, ''agent_complete'', d) st))
                = Some \<lparr>agent_id = a, agent_name = a, content = c, round_number = r,
                        timestamp = or_str (data_timestamp d) now, isComplete = True,
                        tool_calls = Some ts\<rparr>)
         \<and> map_get (key_of a r) (streamingMessages (apply_event gs (now, ''agent_complete'', d) st))
              = Some \<lparr>agent_id = a, agent_name = a,
                      content = (case data_content d of None \<Rightarrow> [] | Some c \<Rightarrow> c),
                      round_number = r,
                      timestamp = (case data_timestamp d of None \<Rightarrow> now
                                   | Some t \<Rightarrow> if t = [] then now else t),
                      isComplete = True,
                      tool_calls = Some (case data_tool_calls d of None \<Rightarrow> [] | Some ts \<Rightarrow> ts)\<rparr>
         \<and> console_errors (apply_event gs (now, ''agent_complete'', d) st) = console_errors st"
proof -
  let ?k = "key_of a r"
  have chunk: "\<forall>c. data_chunk d = Some c \<and> c \<noteq> [] \<longrightarrow>
      map_get ?k (streamingMessages (apply_event gs (now, ''agent_chunk'', d) st))
        = Some \<lparr>agent_id = a, agent_name = a, content = c, round_number = r,
                timestamp = now, isComplete = False, tool_calls = None\<rparr>"
    using assms by (simp add: sm_apply_event reduce_messages_def map_get_chunk)
  have skip: "\<not> truthy_str (data_chunk d) \<longrightarrow>
      streamingMessages (apply_event gs (now, ''agent_chunk'', d) st) = streamingMessages st"
    by (simp add: ignored_chunk)
  have full: "map_get ?k (streamingMessages (apply_event gs (now, ''agent_complete'', d) st))
      = Some \<lparr>agent_id = a, agent_name = a,
              content = (case data_content d of None \<Rightarrow> [] | Some c \<Rightarrow> c),
              round_number = r,
              timestamp = (case data_timestamp d of None \<Rightarrow> now
                           | Some t \<Rightarrow> if t = [] then now else t),
              isComplete = True,
              tool_calls = Some (case data_tool_calls d of None \<Rightarrow> [] | Some ts \<Rightarrow> ts)\<rparr>"
    using assms
    by (simp add: sm_apply_event reduce_messages_def map_get_complete
          split: option.splits)
  have given: "\<forall>c ts. data_content d = Some c \<and> data_tool_calls d = Some ts \<longrightarrow>
      map_get ?k (streamingMessages (apply_event gs (now, ''agent_complete'', d) st))
        = Some \<lparr>agent_id = a, agent_name = a, content = c, round_number = r,
                timestamp = or_str (data_timestamp d) now, isComplete = True,
                tool_calls = Some ts\<rparr>"
    using full by (auto split: option.splits)
  have quiet: "console_errors (apply_event gs (now, ''agent_complete'', d) st) = console_errors st"
    using assms by (simp add: console_errors_agent_complete)
  from chunk skip given full quiet show ?thesis
    by blast
qed

theorem out_of_order_arrival_witness:
  "map_get (key_of ''X'' 2)
     (streamingMessages (apply_event sample_server
        (''T0'', ''agent_chunk'',
         (complete_payload ''X'' 2 ''Done''
            [\<lparr>tool = ''search'', tool_input = ''q'', tool_output = ''found''\<rparr>] ''T9'')
           \<lparr>data_chunk := Some ''Hi''\<rparr>)
        initial_state))
     = Some \<lparr>agent_id = ''X'', agent_name = ''X'', content = ''Hi'', round_number = 2,
             timestamp = ''T0'', isComplete = False, tool_calls = None\<rparr>
   \<and> map_get (key_of ''X'' 2)
     (streamingMessages (apply_event sample_server
        (''T0'', ''agent_complete'',
         (complete_payload ''X'' 2 ''Done''
            [\<lparr>tool = ''search'', tool_input = ''q'', tool_output = ''found''\<rparr>] ''T9'')
           \<lparr>data_chunk := Some ''Hi''\<rparr>)
        initial_state))
     = Some \<lparr>agent_id = ''X'', agent_name = ''X'', content = ''Done'', round_number = 2,
             timestamp = ''T9'', isComplete = True,
             tool_calls = Some [\<lparr>tool = ''search'', tool_input = ''q'', tool_output = ''found''\<rparr>]\<rparr>"
  using out_of_order_arrival [where a = "''X''" and r = 2 and st = initial_state
      and d = "(complete_payload ''X'' 2 ''Done''
            [\<lparr>tool = ''search'', tool_input = ''q'', tool_output = ''found''\<rparr>] ''T9'')
           \<lparr>data_chunk := Some ''Hi''\<rparr>"
      and gs = sample_server and now = "''T0''"]
  by (simp add: initial_state_def complete_payload_def no_fields_def map_get_def)

text \<open>
  The claim as it was stated, for every \<open>agent_chunk\<close> event, fails at an empty delta:
  no record is created.
\<close>

theorem out_of_order_arrival_counterexample:
  "streamingMessages (apply_event sample_server
      (''T1'', ''agent_chunk'', chunk_payload ''A'' 1 []) initial_state) = []
   \<and> map_get (key_of ''A'' 1) (streamingMessages (apply_event sample_server
      (''T1'', ''agent_chunk'', chunk_payload ''A'' 1 []) initial_state)) = None
   \<and> data_chunk (chunk_payload ''A'' 1 []) = Some []"
  by (simp add: sm_apply_event reduce_messages_def chunk_payload_def no_fields_def
        initial_state_def map_get_empty)

subsection \<open>Malformed data lines\<close>

text \<open>
  Claim C9.  A line \<open>data: ...\<close> whose text \<open>JSON.parse\<close> rejects is logged and
  skipped: the state is the one before but for the count of logged errors, the lines
  after it in the chunk are handled from that state, and the loop goes on to the next
  read.
\<close>

theorem malformed_data_line_skipped:
  assumes "startsWith line ''data:''" and "trim (drop 5 line) \<noteq> []"
    and "json_parse (trim (drop 5 line)) = None"
  shows "process_line json_parse gs now line st = st\<lparr>console_errors := Suc (console_errors st)\<rparr>
         \<and> process_lines json_parse gs ((now, line) # rest) st
             = process_lines json_parse gs rest (st\<lparr>console_errors := Suc (console_errors st)\<rparr>)
         \<and> (CHR 0x0A \<notin> set line \<longrightarrow>
              read_loop json_parse gs (Value clock line # reads) st
                = read_loop json_parse gs reads (st\<lparr>console_errors := Suc (console_errors st)\<rparr>))"
proof -
  have one: "process_line json_parse gs t line st = st\<lparr>console_errors := Suc (console_errors st)\<rparr>" for t
    using assms data_line_not_event [OF assms(1)]
    by (simp add: process_line_def Let_def log_parse_error_def)
  then show ?thesis
    by (simp add: process_chunk_def split_lines_single)
qed

theorem malformed_data_line_skipped_witness:
  \<open>process_line sample_parse sample_server ''T0'' ''data: {"agent_id":"A","rou'' initial_state
     = initial_state\<lparr>console_errors := Suc 0\<rparr>
   \<and> streamingMessages (process_lines sample_parse sample_server
        [(''T0'', ''data: {"agent_id":"A","rou''),
         (''T1'', ''event: agent_start''),
         (''T2'', ''data: {"agent_id":"A","round":1}'')] initial_state)
     = [(''A-1'', \<lparr>agent_id = ''A'', agent_name = ''A'', content = [], round_number = 1,
                    timestamp = ''T2'', isComplete = False, tool_calls = None\<rparr>)]\<close>
  using malformed_data_line_skipped [where line = \<open>''data: {"agent_id":"A","rou''\<close>
      and json_parse = sample_parse and gs = sample_server and now = "''T0''"
      and st = initial_state
      and rest = \<open>[(''T1'', ''event: agent_start''), (''T2'', ''data: {"agent_id":"A","round":1}'')]\<close>]
  by (simp add: startsWith_def trim_def is_space_def sample_parse_def initial_state_def
        process_line_def handle_data_def start_payload_def no_fields_def reset_event_type_def
        on_agent_start_def map_has_def map_set_def key_of_def string_of_nat.simps
        digit_char_def Let_def)

subsection \<open>The content at completion\<close>

text \<open>
  Claim C1, as the code has it.  After any events, an \<open>agent_complete\<close> event with a
  non-empty \<open>agent_id\<close> and a round that is not 0 leaves a complete record under its
  key.  When the payload's content is a non-empty string the record's content is that
  string, however many chunks came before.  When the payload's content is empty or
  absent, \<open>data.content || existing.content\<close> keeps the content accumulated so far
  (the empty string when there was no record).
\<close>

theorem completion_content:
  assumes "a \<noteq> []" and "r \<noteq> 0"
    and "data_agent_id d = Some a" and "data_round d = Some r"
  shows "\<exists>rec. map_get (key_of a r)
                 (streamingMessages (apply_events gs (pre @ [(now, ''agent_complete'', d)]) st)) = Some rec
           \<and> isComplete rec
           \<and> (\<forall>c. data_content d = Some c \<and> c \<noteq> [] \<longrightarrow> content rec = c)
           \<and> (\<not> truthy_str (data_content d) \<longrightarrow>
                content rec =
                  (case map_get (key_of a r) (streamingMessages (apply_events gs pre st)) of
                     None \<Rightarrow> [] | Some e \<Rightarrow> content e))"
proof -
  let ?m = "streamingMessages (apply_events gs pre st)"
  obtain rec where rec: "map_get (key_of a r) (reduce_messages (now, ''agent_complete'', d) ?m) = Some rec"
    "isComplete rec"
    "content rec = or_str (data_content d)
       (case map_get (key_of a r) ?m of None \<Rightarrow> [] | Some e \<Rightarrow> content e)"
    using complete_record [OF assms] by blast
  have "streamingMessages (apply_events gs (pre @ [(now, ''agent_complete'', d)]) st)
          = reduce_messages (now, ''agent_complete'', d) ?m"
    by (simp add: apply_events_append sm_apply_event)
  moreover have "\<forall>c. data_content d = Some c \<and> c \<noteq> [] \<longrightarrow> content rec = c"
    using rec(3) by auto
  moreover have "\<not> truthy_str (data_content d) \<longrightarrow>
      content rec = (case map_get (key_of a r) ?m of None \<Rightarrow> [] | Some e \<Rightarrow> content e)"
    using rec(3) by (cases "data_content d") auto
  ultimately show ?thesis using rec(1,2) by auto
qed

theorem completion_content_witness:
  "\<exists>rec. map_get (key_of ''A'' 1)
      (streamingMessages (apply_events sample_server
         ([(''T1'', ''agent_start'', start_payload ''A'' 1),
           (''T2'', ''agent_chunk'', chunk_payload ''A'' 1 ''Hello''),
           (''T3'', ''agent_chunk'', chunk_payload ''A'' 1 '' wor'')]
          @ [(''T4'', ''agent_complete'', complete_payload ''A'' 1 ''Hello world'' [] ''T4'')])
         initial_state)) = Some rec
     \<and> isComplete rec \<and> content rec = ''Hello world''"
  using completion_content [where a = "''A''" and r = 1 and gs = sample_server
      and d = "complete_payload ''A'' 1 ''Hello world'' [] ''T4''" and now = "''T4''"
      and st = initial_state
      and pre = "[(''T1'', ''agent_start'', start_payload ''A'' 1),
           (''T2'', ''agent_chunk'', chunk_payload ''A'' 1 ''Hello''),
           (''T3'', ''agent_chunk'', chunk_payload ''A'' 1 '' wor'')]"]
  by (simp add: complete_payload_def no_fields_def)

text \<open>
  The claim as it was stated fails when the payload's content is the empty string: the
  chunk \<open>Hello\<close> stays.
\<close>

theorem completion_content_counterexample:
  "map_option content
     (map_get (key_of ''A'' 1)
        (streamingMessages (apply_events sample_server
           [(''T1'', ''agent_start'', start_payload ''A'' 1),
            (''T2'', ''agent_chunk'', chunk_payload ''A'' 1 ''Hello''),
            (''T3'', ''agent_complete'', complete_payload ''A'' 1 [] [] ''T3'')]
           initial_state)))
     = Some ''Hello''
   \<and> data_content (complete_payload ''A'' 1 [] [] ''T3'') = Some []"
  by (simp add: sm_apply_event reduce_messages_def start_payload_def chunk_payload_def
        complete_payload_def no_fields_def initial_state_def map_get_start map_get_chunk
        map_get_complete map_get_empty)

subsection \<open>Keys\<close>

text \<open>
  The key string determines the pair it was built from: the digits of the round hold no
  \<open>-\<close>, so the last \<open>-\<close> of a key is the separator.
\<close>

lemma digit_char_inj: "m < 10 \<Longrightarrow> n < 10 \<Longrightarrow> digit_char m = digit_char n \<Longrightarrow> m = n"
proof -
  assume m: "m < 10" and n: "n < 10" and eq: "digit_char m = digit_char n"
  have d: "distinct ''0123456789''" by simp
  have "''0123456789'' ! m = ''0123456789'' ! n"
    using eq m n by (simp add: digit_char_def)
  with d m n show "m = n"
    by (simp add: nth_eq_iff_index_eq)
qed

lemma digit_char_not_dash: "digit_char n \<noteq> CHR ''-''"
proof -
  have "n mod 10 < 10" by simp
  then have "''0123456789'' ! (n mod 10) \<in> set ''0123456789''"
    by (intro nth_mem) simp
  then show ?thesis
    unfolding digit_char_def by auto
qed

lemma string_of_nat_not_empty: "string_of_nat n \<noteq> []"
  by (subst string_of_nat.simps) simp

lemma string_of_nat_no_dash: "CHR ''-'' \<notin> set (string_of_nat n)"
proof (induction n rule: string_of_nat.induct)
  case (1 n)
  show ?case
  proof (cases "n < 10")
    case True
    then show ?thesis
      using digit_char_not_dash [of n] by (subst string_of_nat.simps) auto
  next
    case False
    then show ?thesis
      using 1 digit_char_not_dash [of "n mod 10"] by (subst string_of_nat.simps) auto
  qed
qed

lemma string_of_nat_inj: "string_of_nat m = string_of_nat n \<Longrightarrow> m = n"
proof (induction m arbitrary: n rule: string_of_nat.induct)
  case (1 m)
  show ?case
  proof (cases "m < 10")
    case m: True
    show ?thesis
    proof (cases "n < 10")
      case True
      with m "1.prems" show ?thesis
        by (simp add: string_of_nat.simps [of m] string_of_nat.simps [of n] digit_char_inj)
    next
      case False
      with m "1.prems" string_of_nat_not_empty [of "n div 10"] show ?thesis
        by (simp add: string_of_nat.simps [of m] string_of_nat.simps [of n])
    qed
  next
    case m: False
    show ?thesis
    proof (cases "n < 10")
      case True
      with m "1.prems" string_of_nat_not_empty [of "m div 10"] show ?thesis
        by (simp add: string_of_nat.simps [of m] string_of_nat.simps [of n])
    next
      case False
      with m "1.prems" have eq: "string_of_nat (m div 10) = string_of_nat (n div 10)"
        and dg: "digit_char (m mod 10) = digit_char (n mod 10)"
        by (simp_all add: string_of_nat.simps [of m] string_of_nat.simps [of n])
      from "1.IH" [OF m eq] have "m div 10 = n div 10" .
      moreover from dg have "m mod 10 = n mod 10"
        by (intro digit_char_inj) simp_all
      ultimately show ?thesis
        by (metis div_mult_mod_eq)
    qed
  qed
qed

lemma dash_split_unique:
  assumes "a @ CHR ''-'' # u = b @ CHR ''-'' # v"
    and "CHR ''-'' \<notin> set u" and "CHR ''-'' \<notin> set v"
  shows "a = b \<and> u = v"
proof -
  have "takeWhile (\<lambda>c. c \<noteq> CHR ''-'') (rev (a @ CHR ''-'' # u)) = rev u"
    using assms(2) by (auto simp: takeWhile_tail)
  moreover have "takeWhile (\<lambda>c. c \<noteq> CHR ''-'') (rev (b @ CHR ''-'' # v)) = rev v"
    using assms(3) by (auto simp: takeWhile_tail)
  ultimately have "u = v" using assms(1) by simp
  with assms(1) show ?thesis by simp
qed

lemma key_of_inj: "key_of a r = key_of b s \<Longrightarrow> a = b \<and> r = s"
  unfolding key_of_def
  using dash_split_unique [of a "string_of_nat r" b "string_of_nat s"]
    string_of_nat_no_dash string_of_nat_inj
  by auto

subsection \<open>Interleaving the events of two keys\<close>

lemma fold_local:
  "map_get k m = map_get k m' \<Longrightarrow>
   map_get k (fold reduce_messages es m) = map_get k (fold reduce_messages es m')"
proof (induction es arbitrary: m m')
  case Nil
  then show ?case by simp
next
  case (Cons e es)
  from Cons.prems have "map_get k (reduce_messages e m) = map_get k (reduce_messages e m')"
    by (rule reduce_local)
  from Cons.IH [OF this] show ?case
    by simp
qed

lemma shuffle_project:
  assumes "zs \<in> shuffles xs ys"
    and "\<forall>ev\<in>set ys. for_key a r ev" and "key_of a r \<noteq> k"
    and "map_get k m = map_get k m'"
  shows "map_get k (fold reduce_messages zs m) = map_get k (fold reduce_messages xs m')"
  using assms
proof (induction zs arbitrary: xs ys m m')
  case Nil
  then show ?case by simp
next
  case (Cons z zs)
  from Cons.prems(1) have
    "(xs \<noteq> [] \<and> hd xs = z \<and> zs \<in> shuffles (tl xs) ys)
     \<or> (ys \<noteq> [] \<and> hd ys = z \<and> zs \<in> shuffles xs (tl ys))"
    by (simp only: Cons_in_shuffles_iff)
  then consider
    (left) xs' where "xs = z # xs'" "zs \<in> shuffles xs' ys"
  | (right) ys' where "ys = z # ys'" "zs \<in> shuffles xs ys'"
    by (metis list.collapse)
  then show ?case
  proof cases
    case left
    have "map_get k (reduce_messages z m) = map_get k (reduce_messages z m')"
      using Cons.prems(4) by (rule reduce_local)
    from Cons.IH [OF left(2) Cons.prems(2,3) this] show ?thesis
      by (simp add: left(1))
  next
    case right
    with Cons.prems(2) have z: "for_key a r z" and rest: "\<forall>ev\<in>set ys'. for_key a r ev"
      by simp_all
    have "map_get k (reduce_messages z m) = map_get k m'"
      using reduce_other [OF z Cons.prems(3)] Cons.prems(4) by simp
    from Cons.IH [OF right(2) rest Cons.prems(3) this] show ?thesis
      by simp
  qed
qed

text \<open>
  Claim C6.  Let \<open>es1\<close> be events of the key \<open>(a1, r1)\<close> and \<open>es2\<close> events of a
  different key \<open>(a2, r2)\<close>, and let \<open>zs\<close> be any interleaving of the two that keeps each
  sequence's own order.  Handling \<open>zs\<close> leaves under each key the record that handling
  that key's events alone leaves, from whatever state the run starts: an update for one
  key neither reads nor changes the record of the other (\<open>reduce_local\<close>,
  \<open>reduce_other\<close>).
\<close>

theorem interleaving_independent:
  assumes "(a1, r1) \<noteq> (a2, r2)"
    and "\<forall>ev\<in>set es1. for_key a1 r1 ev" and "\<forall>ev\<in>set es2. for_key a2 r2 ev"
    and "zs \<in> shuffles es1 es2"
  shows "map_get (key_of a1 r1) (streamingMessages (apply_events gs zs st))
           = map_get (key_of a1 r1) (streamingMessages (apply_events gs es1 st))
         \<and> map_get (key_of a2 r2) (streamingMessages (apply_events gs zs st))
           = map_get (key_of a2 r2) (streamingMessages (apply_events gs es2 st))"
proof -
  from assms(1) have ne: "key_of a2 r2 \<noteq> key_of a1 r1" "key_of a1 r1 \<noteq> key_of a2 r2"
    using key_of_inj by blast+
  from assms(4) have zs': "zs \<in> shuffles es2 es1"
    by (simp add: shuffles_commutes)
  have "map_get (key_of a1 r1) (fold reduce_messages zs (streamingMessages st))
          = map_get (key_of a1 r1) (fold reduce_messages es1 (streamingMessages st))"
    using shuffle_project [OF assms(4) assms(3) ne(1)] by simp
  moreover have "map_get (key_of a2 r2) (fold reduce_messages zs (streamingMessages st))
          = map_get (key_of a2 r2) (fold reduce_messages es2 (streamingMessages st))"
    using shuffle_project [OF zs' assms(2) ne(2)] by simp
  ultimately show ?thesis
    by (simp add: sm_apply_events)
qed

theorem interleaving_independent_witness:
  "map_get (key_of ''A'' 1) (streamingMessages (apply_events sample_server
       [(''T1'', ''agent_start'', start_payload ''A'' 1),
        (''T2'', ''agent_start'', start_payload ''B'' 1),
        (''T3'', ''agent_chunk'', chunk_payload ''A'' 1 ''Hello''),
        (''T4'', ''agent_complete'', complete_payload ''B'' 1 ''Ack'' [] ''T4''),
        (''T5'', ''agent_complete'', complete_payload ''A'' 1 ''Hello world'' [] ''T5'')]
       initial_state))
     = map_get (key_of ''A'' 1) (streamingMessages (apply_events sample_server
       [(''T1'', ''agent_start'', start_payload ''A'' 1),
        (''T3'', ''agent_chunk'', chunk_payload ''A'' 1 ''Hello''),
        (''T5'', ''agent_complete'', complete_payload ''A'' 1 ''Hello world'' [] ''T5'')]
       initial_state))
   \<and> map_get (key_of ''B'' 1) (streamingMessages (apply_events sample_server
       [(''T1'', ''agent_start'', start_payload ''A'' 1),
        (''T2'', ''agent_start'', start_payload ''B'' 1),
        (''T3'', ''agent_chunk'', chunk_payload ''A'' 1 ''Hello''),
        (''T4'', ''agent_complete'', complete_payload ''B'' 1 ''Ack'' [] ''T4''),
        (''T5'', ''agent_complete'', complete_payload ''A'' 1 ''Hello world'' [] ''T5'')]
       initial_state))
     = map_get (key_of ''B'' 1) (streamingMessages (apply_events sample_server
       [(''T2'', ''agent_start'', start_payload ''B'' 1),
        (''T4'', ''agent_complete'', complete_payload ''B'' 1 ''Ack'' [] ''T4'')]
       initial_state))"
proof -
  let ?a1 = "(''T1'', ''agent_start'', start_payload ''A'' 1)"
  let ?b1 = "(''T2'', ''agent_start'', start_payload ''B'' 1)"
  let ?a2 = "(''T3'', ''agent_chunk'', chunk_payload ''A'' 1 ''Hello'')"
  let ?b2 = "(''T4'', ''agent_complete'', complete_payload ''B'' 1 ''Ack'' [] ''T4'')"
  let ?a3 = "(''T5'', ''agent_complete'', complete_payload ''A'' 1 ''Hello world'' [] ''T5'')"
  have ne: "(''A'', 1::nat) \<noteq> (''B'', 1)" by simp
  have A: "\<forall>ev\<in>set [?a1, ?a2, ?a3]. for_key ''A'' 1 ev"
    by (simp add: for_key_def start_payload_def chunk_payload_def complete_payload_def no_fields_def)
  have B: "\<forall>ev\<in>set [?b1, ?b2]. for_key ''B'' 1 ev"
    by (simp add: for_key_def start_payload_def complete_payload_def no_fields_def)
  have mix: "[?a1, ?b1, ?a2, ?b2, ?a3] \<in> shuffles [?a1, ?a2, ?a3] [?b1, ?b2]"
    by (intro Cons_in_shuffles_leftI Cons_in_shuffles_rightI) simp
  show ?thesis
    by (rule interleaving_independent [OF ne A B mix])
qed

subsection \<open>Keys stay and flags stay raised\<close>

lemma start_keeps:
  "map_get k m = Some rec \<Longrightarrow> map_get k (on_agent_start now a r m) = Some rec"
  by (simp add: map_get_start)

lemma chunk_keeps:
  assumes "map_get k m = Some rec"
  shows "\<exists>rec'. map_get k (on_agent_chunk now a r c m) = Some rec'
           \<and> (isComplete rec \<longrightarrow> isComplete rec')"
  using assms by (cases "k = key_of a r") (simp_all add: map_get_chunk)

lemma complete_keeps:
  assumes "map_get k m = Some rec"
  shows "\<exists>rec'. map_get k (on_agent_complete now a r d m) = Some rec'
           \<and> (isComplete rec \<longrightarrow> isComplete rec')"
  using assms by (cases "k = key_of a r") (simp_all add: map_get_complete)

lemma mark_all_keeps:
  assumes "map_get k m = Some rec"
  shows "\<exists>rec'. map_get k (mark_all_complete m) = Some rec'
           \<and> (isComplete rec \<longrightarrow> isComplete rec')"
  using assms by (simp add: map_get_mark_all)

lemma reduce_keeps:
  assumes "map_get k m = Some rec"
  shows "\<exists>rec'. map_get k (reduce_messages ev m) = Some rec' \<and> (isComplete rec \<longrightarrow> isComplete rec')"
proof (cases ev)
  case (fields now ty d)
  show ?thesis
    unfolding fields reduce_messages_def
    by (simp add: start_keeps [OF assms] chunk_keeps [OF assms] complete_keeps [OF assms]
          mark_all_keeps [OF assms] assms)
qed

lemma sm_handle_null: "streamingMessages (handle_null st) = streamingMessages st"
  by (simp add: handle_null_def log_parse_error_def reset_event_type_def)

lemma sm_process_line:
  "streamingMessages (process_line jp gs now line st) = streamingMessages st
   \<or> (\<exists>d. streamingMessages (process_line jp gs now line st)
          = reduce_messages (now, currentEventType st, d) (streamingMessages st))"
  by (auto simp: process_line_def Let_def log_parse_error_def sm_handle_null sm_handle_data
        split: option.splits json_value.splits)

lemma process_line_keeps:
  assumes "map_get k (streamingMessages st) = Some rec"
  shows "\<exists>rec'. map_get k (streamingMessages (process_line jp gs now line st)) = Some rec'
           \<and> (isComplete rec \<longrightarrow> isComplete rec')"
  using sm_process_line [of jp gs now line st] reduce_keeps [OF assms] assms
  by metis

lemma process_lines_keeps:
  assumes "map_get k (streamingMessages st) = Some rec"
  shows "\<exists>rec'. map_get k (streamingMessages (process_lines jp gs ls st)) = Some rec'
           \<and> (isComplete rec \<longrightarrow> isComplete rec')"
  using assms
proof (induction ls arbitrary: st rec)
  case Nil
  then show ?case by simp
next
  case (Cons l ls)
  obtain now line where l: "l = (now, line)" by (cases l)
  from process_line_keeps [OF Cons.prems] obtain rec1 where
    r1: "map_get k (streamingMessages (process_line jp gs now line st)) = Some rec1"
    and c1: "isComplete rec \<longrightarrow> isComplete rec1"
    by blast
  from Cons.IH [OF r1] obtain rec' where
    "map_get k (streamingMessages (process_lines jp gs ls (process_line jp gs now line st))) = Some rec'"
    "isComplete rec1 \<longrightarrow> isComplete rec'"
    by blast
  with c1 show ?case
    by (auto simp: l)
qed

lemma process_chunk_keeps:
  assumes "map_get k (streamingMessages st) = Some rec"
  shows "\<exists>rec'. map_get k (streamingMessages (process_chunk jp gs clock chunk st)) = Some rec'
           \<and> (isComplete rec \<longrightarrow> isComplete rec')"
  unfolding process_chunk_def Let_def
  by (rule process_lines_keeps [OF assms])

lemma read_loop_keeps:
  assumes "map_get k (streamingMessages st) = Some rec"
  shows "\<exists>rec'. map_get k (streamingMessages (snd (read_loop jp gs reads st))) = Some rec'
           \<and> (isComplete rec \<longrightarrow> isComplete rec')"
  using assms
proof (induction reads arbitrary: st rec)
  case Nil
  then show ?case by simp
next
  case (Cons rd reads)
  show ?case
  proof (cases rd)
    case (Value clock chunk)
    from process_chunk_keeps [OF Cons.prems] obtain rec1 where
      r1: "map_get k (streamingMessages (process_chunk jp gs clock chunk st)) = Some rec1"
      and c1: "isComplete rec \<longrightarrow> isComplete rec1"
      by blast
    from Cons.IH [OF r1] c1 show ?thesis
      by (auto simp: Value)
  next
    case Done
    with Cons.prems show ?thesis by simp
  next
    case (ReadThrows e)
    with Cons.prems show ?thesis by simp
  qed
qed

lemma apply_events_keeps:
  assumes "map_get k (streamingMessages st) = Some rec"
  shows "\<exists>rec'. map_get k (streamingMessages (apply_events gs evs st)) = Some rec'
           \<and> (isComplete rec \<longrightarrow> isComplete rec')"
  using assms
proof (induction evs arbitrary: st rec)
  case Nil
  then show ?case by simp
next
  case (Cons ev evs)
  from reduce_keeps [OF Cons.prems, of ev] obtain rec1 where
    r1: "map_get k (streamingMessages (apply_event gs ev st)) = Some rec1"
    and c1: "isComplete rec \<longrightarrow> isComplete rec1"
    by (auto simp: sm_apply_event)
  from Cons.IH [OF r1] c1 show ?case
    by auto
qed

text \<open>
  Claim C10.  A key that is in \<open>streamingMessages\<close> is still there after the reading
  loop has handled any reads, and after any sequence of events of whatever type; and
  when its record was complete before, it is complete after.
\<close>

theorem keys_and_flags_monotone:
  assumes "map_get k (streamingMessages st) = Some rec"
  shows "(\<exists>rec'. map_get k (streamingMessages (snd (read_loop jp gs reads st))) = Some rec'
            \<and> (isComplete rec \<longrightarrow> isComplete rec'))
         \<and> (\<exists>rec'. map_get k (streamingMessages (apply_events gs evs st)) = Some rec'
            \<and> (isComplete rec \<longrightarrow> isComplete rec'))"
  using read_loop_keeps [OF assms] apply_events_keeps [OF assms]
  by blast

theorem keys_and_flags_monotone_witness:
  \<open>(\<exists>rec'. map_get (key_of ''A'' 1)
        (streamingMessages (snd (read_loop sample_parse sample_server
           [Value sample_clock (''event: agent_start'' @ [CHR 0x0A] @ ''data: {"agent_id":"A","round":1}''),
            Value sample_clock (''event: error'' @ [CHR 0x0A] @ ''data: {"error":"boom"}''),
            Done]
           (apply_events sample_server
              [(''T1'', ''agent_complete'', complete_payload ''A'' 1 ''Hi'' [] ''T1'')] initial_state))))
        = Some rec' \<and> isComplete rec')
    \<and> (\<exists>rec'. map_get (key_of ''A'' 1)
        (streamingMessages (apply_events sample_server
           [(''T2'', ''agent_chunk'', chunk_payload ''A'' 1 ''Hello''),
            (''T3'', ''session_complete'', session_payload ''s1'')]
           (apply_events sample_server
              [(''T1'', ''agent_complete'', complete_payload ''A'' 1 ''Hi'' [] ''T1'')] initial_state)))
        = Some rec' \<and> isComplete rec')\<close>
  using keys_and_flags_monotone [where k = "key_of ''A'' 1" and jp = sample_parse and gs = sample_server
      and st = "apply_events sample_server
              [(''T1'', ''agent_complete'', complete_payload ''A'' 1 ''Hi'' [] ''T1'')] initial_state"
      and rec = "\<lparr>agent_id = ''A'', agent_name = ''A'', content = ''Hi'', round_number = 1,
                   timestamp = ''T1'', isComplete = True, tool_calls = Some []\<rparr>"
      and reads = \<open>[Value sample_clock (''event: agent_start'' @ [CHR 0x0A] @ ''data: {"agent_id":"A","round":1}''),
            Value sample_clock (''event: error'' @ [CHR 0x0A] @ ''data: {"error":"boom"}''),
            Done]\<close>
      and evs = "[(''T2'', ''agent_chunk'', chunk_payload ''A'' 1 ''Hello''),
            (''T3'', ''session_complete'', session_payload ''s1'')]"]
  by (simp add: sm_apply_event reduce_messages_def map_get_complete map_get_empty
        complete_payload_def no_fields_def initial_state_def)

subsection \<open>Events after a completion\<close>

lemma start_on_existing:
  assumes "map_get (key_of a r) m = Some rec"
    and "data_agent_id d = Some a" and "data_round d = Some r"
  shows "reduce_messages (t, ''agent_start'', d) m = m"
  using assms by (simp add: reduce_messages_def on_agent_start_def map_has_get)

lemma chunk_on_existing:
  assumes "map_get (key_of a r) m = Some rec"
    and "data_agent_id d = Some a" and "data_round d = Some r"
    and "data_chunk d = Some c" and "c \<noteq> []" and "a \<noteq> []" and "r \<noteq> 0"
  shows "map_get (key_of a r) (reduce_messages (t, ''agent_chunk'', d) m)
           = Some (rec\<lparr>content := content rec @ c, timestamp := t\<rparr>)"
  using assms by (simp add: reduce_messages_def map_get_chunk)

lemma complete_on_existing:
  assumes "map_get (key_of a r) m = Some rec"
    and "data_agent_id d = Some a" and "data_round d = Some r" and "a \<noteq> []" and "r \<noteq> 0"
  shows "map_get (key_of a r) (reduce_messages (t, ''agent_complete'', d) m)
           = Some (rec\<lparr>content := or_str (data_content d) (content rec),
                        tool_calls := Some (or_tool_calls (data_tool_calls d)),
                        timestamp := or_str (data_timestamp d) (timestamp rec),
                        isComplete := True\<rparr>)"
  using assms by (simp add: reduce_messages_def map_get_complete)

text \<open>
  Claim C2, as the code has it.  Once an \<open>agent_complete\<close> event of a key (non-empty
  \<open>agent_id\<close>, round not 0) has been handled, then after any later events \<open>post\<close> the
  key still has a record and the record is complete.  From there a further
  \<open>agent_start\<close> of the key leaves the whole map as it is; a further \<open>agent_chunk\<close> of
  the key with a non-empty delta appends the delta to the content and sets the
  timestamp, leaving tool calls and flag; a further \<open>agent_complete\<close> of the key applies
  its own payload to the record.
\<close>

theorem after_completion:
  assumes "a \<noteq> []" and "r \<noteq> 0"
    and "data_agent_id d = Some a" and "data_round d = Some r"
  shows "\<exists>rec.
           map_get (key_of a r)
             (streamingMessages (apply_events gs post (apply_event gs (now, ''agent_complete'', d) st)))
             = Some rec
         \<and> isComplete rec
         \<and> (\<forall>t d'. data_agent_id d' = Some a \<and> data_round d' = Some r \<longrightarrow>
               streamingMessages (apply_event gs (t, ''agent_start'', d')
                  (apply_events gs post (apply_event gs (now, ''agent_complete'', d) st)))
               = streamingMessages (apply_events gs post (apply_event gs (now, ''agent_complete'', d) st)))
         \<and> (\<forall>t d' c. data_agent_id d' = Some a \<and> data_round d' = Some r
                 \<and> data_chunk d' = Some c \<and> c \<noteq> [] \<longrightarrow>
               map_get (key_of a r) (streamingMessages (apply_event gs (t, ''agent_chunk'', d')
                  (apply_events gs post (apply_event gs (now, ''agent_complete'', d) st))))
               = Some (rec\<lparr>content := content rec @ c, timestamp := t\<rparr>))
         \<and> (\<forall>t d'. data_agent_id d' = Some a \<and> data_round d' = Some r \<longrightarrow>
               map_get (key_of a r) (streamingMessages (apply_event gs (t, ''agent_complete'', d')
                  (apply_events gs post (apply_event gs (now, ''agent_complete'', d) st))))
               = Some (rec\<lparr>content := or_str (data_content d') (content rec),
                            tool_calls := Some (or_tool_calls (data_tool_calls d')),
                            timestamp := or_str (data_timestamp d') (timestamp rec),
                            isComplete := True\<rparr>))"
proof -
  let ?k = "key_of a r"
  let ?st1 = "apply_event gs (now, ''agent_complete'', d) st"
  let ?st2 = "apply_events gs post ?st1"
  obtain rec1 where r1: "map_get ?k (streamingMessages ?st1) = Some rec1" and c1: "isComplete rec1"
    using complete_record [OF assms] by (auto simp: sm_apply_event)
  from apply_events_keeps [OF r1] c1 obtain rec where
    r2: "map_get ?k (streamingMessages ?st2) = Some rec" and c2: "isComplete rec"
    by blast
  have "\<forall>t d'. data_agent_id d' = Some a \<and> data_round d' = Some r \<longrightarrow>
          streamingMessages (apply_event gs (t, ''agent_start'', d') ?st2) = streamingMessages ?st2"
    using start_on_existing [OF r2] by (simp add: sm_apply_event)
  moreover have "\<forall>t d' c. data_agent_id d' = Some a \<and> data_round d' = Some r
        \<and> data_chunk d' = Some c \<and> c \<noteq> [] \<longrightarrow>
      map_get ?k (streamingMessages (apply_event gs (t, ''agent_chunk'', d') ?st2))
        = Some (rec\<lparr>content := content rec @ c, timestamp := t\<rparr>)"
    using chunk_on_existing [OF r2] assms(1,2) by (simp add: sm_apply_event)
  moreover have "\<forall>t d'. data_agent_id d' = Some a \<and> data_round d' = Some r \<longrightarrow>
      map_get ?k (streamingMessages (apply_event gs (t, ''agent_complete'', d') ?st2))
        = Some (rec\<lparr>content := or_str (data_content d') (content rec),
                     tool_calls := Some (or_tool_calls (data_tool_calls d')),
                     timestamp := or_str (data_timestamp d') (timestamp rec),
                     isComplete := True\<rparr>)"
    using complete_on_existing [OF r2] assms(1,2) by (simp add: sm_apply_event)
  ultimately show ?thesis
    using r2 c2 by blast
qed

theorem after_completion_witness:
  "\<exists>rec. map_get (key_of ''A'' 1)
       (streamingMessages (apply_events sample_server
          [(''T2'', ''agent_start'', start_payload ''B'' 1)]
          (apply_event sample_server
             (''T1'', ''agent_complete'', complete_payload ''A'' 1 ''Hi'' [] ''T1'') initial_state)))
       = Some rec
     \<and> isComplete rec
     \<and> streamingMessages (apply_event sample_server (''T3'', ''agent_start'', start_payload ''A'' 1)
         (apply_events sample_server
          [(''T2'', ''agent_start'', start_payload ''B'' 1)]
          (apply_event sample_server
             (''T1'', ''agent_complete'', complete_payload ''A'' 1 ''Hi'' [] ''T1'') initial_state)))
       = streamingMessages (apply_events sample_server
          [(''T2'', ''agent_start'', start_payload ''B'' 1)]
          (apply_event sample_server
             (''T1'', ''agent_complete'', complete_payload ''A'' 1 ''Hi'' [] ''T1'') initial_state))"
proof -
  let ?d = "complete_payload ''A'' 1 ''Hi'' [] ''T1''"
  let ?X = "apply_events sample_server [(''T2'', ''agent_start'', start_payload ''B'' 1)]
              (apply_event sample_server (''T1'', ''agent_complete'', ?d) initial_state)"
  have h: "''A'' \<noteq> []" "(1::nat) \<noteq> 0" "data_agent_id ?d = Some ''A''" "data_round ?d = Some 1"
    by (simp_all add: complete_payload_def no_fields_def)
  from after_completion [OF h, where gs = sample_server and now = "''T1''" and st = initial_state
      and post = "[(''T2'', ''agent_start'', start_payload ''B'' 1)]"]
  obtain rec where 1: "map_get (key_of ''A'' 1) (streamingMessages ?X) = Some rec"
    and 2: "isComplete rec"
    and 3: "\<forall>t d'. data_agent_id d' = Some ''A'' \<and> data_round d' = Some 1 \<longrightarrow>
              streamingMessages (apply_event sample_server (t, ''agent_start'', d') ?X)
                = streamingMessages ?X"
    by blast
  from 3 have "streamingMessages (apply_event sample_server (''T3'', ''agent_start'', start_payload ''A'' 1) ?X)
                = streamingMessages ?X"
    by (simp add: start_payload_def no_fields_def)
  with 1 2 show ?thesis by blast
qed

text \<open>
  The record is not immutable after its completion, as the claim had it: a chunk that
  arrives later is appended to the content.
\<close>

theorem after_completion_counterexample:
  "map_option content (map_get (key_of ''A'' 1) (streamingMessages (apply_events sample_server
       [(''T1'', ''agent_complete'', complete_payload ''A'' 1 ''Hi'' [] ''T1'')] initial_state)))
     = Some ''Hi''
   \<and> map_option content (map_get (key_of ''A'' 1) (streamingMessages (apply_events sample_server
       [(''T1'', ''agent_complete'', complete_payload ''A'' 1 ''Hi'' [] ''T1''),
        (''T2'', ''agent_chunk'', chunk_payload ''A'' 1 ''!'')] initial_state)))
     = Some ''Hi!''"
  by (simp add: sm_apply_event reduce_messages_def chunk_payload_def
        complete_payload_def no_fields_def initial_state_def map_get_chunk
        map_get_complete map_get_empty)

subsection \<open>The end of the session\<close>

lemma mark_all_complete_flags:
  "map_get k (mark_all_complete m) = Some rec \<Longrightarrow> isComplete rec"
  by (auto simp: map_get_mark_all)

lemma mark_all_complete_keys: "map fst (mark_all_complete m) = map fst m"
  by (induction m) (auto simp: mark_all_complete_def)

lemma session_complete_cache:
  assumes "data_session_id d = Some sid" and "sid \<noteq> []"
  shows "queryData (apply_event gs (now, ''session_complete'', d) st)
           = (if sessionId st = [] then queryData st
              else case gs (length (fetched st)) (sessionId st) of
                     None \<Rightarrow> queryData st
                   | Some finalSession \<Rightarrow> AList.update (sessionId st) finalSession (queryData st))"
    and "refetchSessions_calls (apply_event gs (now, ''session_complete'', d) st)
           = (if sessionId st = [] then refetchSessions_calls st
              else case gs (length (fetched st)) (sessionId st) of
                     None \<Rightarrow> refetchSessions_calls st
                   | Some finalSession \<Rightarrow> Suc (refetchSessions_calls st))"
    and "console_errors (apply_event gs (now, ''session_complete'', d) st)
           = (if sessionId st = [] then console_errors st
              else case gs (length (fetched st)) (sessionId st) of
                     None \<Rightarrow> Suc (console_errors st)
                   | Some finalSession \<Rightarrow> console_errors st)"
  using assms
  by (simp_all add: apply_event_def handle_data_def Let_def reset_event_type_def log_parse_error_def
        split: option.splits)

text \<open>
  Claim C8, as the code has it.  A \<open>session_complete\<close> event with a non-empty
  \<open>session_id\<close> replaces the map by \<open>mark_all_complete\<close> of it: the same keys in the same
  order, every record complete.  When an earlier \<open>session_created\<close> event has stored an
  id in the local \<open>sessionId\<close>, it sends one \<open>getSession\<close> request for that id; the
  session that the request returns is written to the query cache under that id
  (\<open>setQueryData\<close>), where the view reads the session, and the list of sessions is
  fetched again; when the request is rejected the cache stays as it is and the error is
  logged.  When no id was stored (\<open>if (sessionId)\<close>) no request is sent and the cache
  stays as it is.
\<close>

theorem session_complete_effect:
  assumes "data_session_id d = Some sid" and "sid \<noteq> []"
  shows "streamingMessages (apply_event gs (now, ''session_complete'', d) st)
           = mark_all_complete (streamingMessages st)
         \<and> map fst (streamingMessages (apply_event gs (now, ''session_complete'', d) st))
           = map fst (streamingMessages st)
         \<and> (\<forall>k rec. map_get k (streamingMessages (apply_event gs (now, ''session_complete'', d) st)) = Some rec
               \<longrightarrow> isComplete rec)
         \<and> fetched (apply_event gs (now, ''session_complete'', d) st)
           = fetched st @ (if sessionId st = [] then [] else [sessionId st])
         \<and> (\<forall>finalSession. sessionId st \<noteq> [] \<and> gs (length (fetched st)) (sessionId st) = Some finalSession \<longrightarrow>
               queryData (apply_event gs (now, ''session_complete'', d) st)
                 = AList.update (sessionId st) finalSession (queryData st)
               \<and> map_of (queryData (apply_event gs (now, ''session_complete'', d) st)) (sessionId st)
                 = Some finalSession
               \<and> refetchSessions_calls (apply_event gs (now, ''session_complete'', d) st)
                 = Suc (refetchSessions_calls st))
         \<and> (sessionId st \<noteq> [] \<and> gs (length (fetched st)) (sessionId st) = None \<longrightarrow>
               queryData (apply_event gs (now, ''session_complete'', d) st) = queryData st
               \<and> refetchSessions_calls (apply_event gs (now, ''session_complete'', d) st)
                 = refetchSessions_calls st
               \<and> console_errors (apply_event gs (now, ''session_complete'', d) st)
                 = Suc (console_errors st))
         \<and> (sessionId st = [] \<longrightarrow>
               queryData (apply_event gs (now, ''session_complete'', d) st) = queryData st
               \<and> refetchSessions_calls (apply_event gs (now, ''session_complete'', d) st)
                 = refetchSessions_calls st)"
proof -
  have sm: "streamingMessages (apply_event gs (now, ''session_complete'', d) st)
              = mark_all_complete (streamingMessages st)"
    using assms by (simp add: sm_apply_event reduce_messages_def)
  have ft: "fetched (apply_event gs (now, ''session_complete'', d) st)
              = fetched st @ (if sessionId st = [] then [] else [sessionId st])"
    using assms
    by (simp add: apply_event_def handle_data_def Let_def reset_event_type_def log_parse_error_def
          split: option.splits)
  have marked: "map fst (streamingMessages (apply_event gs (now, ''session_complete'', d) st))
           = map fst (streamingMessages st)
         \<and> (\<forall>k rec. map_get k (streamingMessages (apply_event gs (now, ''session_complete'', d) st)) = Some rec
               \<longrightarrow> isComplete rec)"
    using sm mark_all_complete_flags [of _ "streamingMessages st"]
    by (simp add: mark_all_complete_keys)
  have stored: "\<forall>finalSession. sessionId st \<noteq> [] \<and> gs (length (fetched st)) (sessionId st) = Some finalSession \<longrightarrow>
               queryData (apply_event gs (now, ''session_complete'', d) st)
                 = AList.update (sessionId st) finalSession (queryData st)
               \<and> map_of (queryData (apply_event gs (now, ''session_complete'', d) st)) (sessionId st)
                 = Some finalSession
               \<and> refetchSessions_calls (apply_event gs (now, ''session_complete'', d) st)
                 = Suc (refetchSessions_calls st)"
    by (simp add: session_complete_cache [OF assms] update_conv')
  have rejected: "sessionId st \<noteq> [] \<and> gs (length (fetched st)) (sessionId st) = None \<longrightarrow>
               queryData (apply_event gs (now, ''session_complete'', d) st) = queryData st
               \<and> refetchSessions_calls (apply_event gs (now, ''session_complete'', d) st)
                 = refetchSessions_calls st
               \<and> console_errors (apply_event gs (now, ''session_complete'', d) st)
                 = Suc (console_errors st)"
    by (simp add: session_complete_cache [OF assms])
  have nothing: "sessionId st = [] \<longrightarrow>
               queryData (apply_event gs (now, ''session_complete'', d) st) = queryData st
               \<and> refetchSessions_calls (apply_event gs (now, ''session_complete'', d) st)
                 = refetchSessions_calls st"
    by (simp add: session_complete_cache [OF assms])
  from marked have keys: "map fst (streamingMessages (apply_event gs (now, ''session_complete'', d) st))
           = map fst (streamingMessages st)"
    and flags: "\<forall>k rec. map_get k (streamingMessages (apply_event gs (now, ''session_complete'', d) st)) = Some rec
               \<longrightarrow> isComplete rec"
    by simp_all
  show ?thesis
    apply (intro conjI)
          apply (fact sm)
         apply (fact keys)
        apply (fact flags)
       apply (fact ft)
      apply (fact stored)
     apply (fact rejected)
    apply (fact nothing)
    done
qed

theorem session_complete_effect_witness:
  "fetched (apply_event sample_server (''T3'', ''session_complete'', session_payload ''s1'')
      (apply_events sample_server
        [(''T1'', ''session_created'', session_payload ''s1''),
         (''T2'', ''agent_start'', start_payload ''A'' 1)] initial_state)) = [''s1'']
   \<and> streamingMessages (apply_event sample_server (''T3'', ''session_complete'', session_payload ''s1'')
      (apply_events sample_server
        [(''T1'', ''session_created'', session_payload ''s1''),
         (''T2'', ''agent_start'', start_payload ''A'' 1)] initial_state))
     = [(''A-1'', \<lparr>agent_id = ''A'', agent_name = ''A'', content = [], round_number = 1,
                    timestamp = ''T2'', isComplete = True, tool_calls = None\<rparr>)]
   \<and> queryData (apply_event sample_server (''T3'', ''session_complete'', session_payload ''s1'')
      (apply_events sample_server
        [(''T1'', ''session_created'', session_payload ''s1''),
         (''T2'', ''agent_start'', start_payload ''A'' 1)] initial_state))
     = [(''s1'', \<lparr>ws_id = ''s1'', ws_notebook_id = ''nb'', ws_mode = ''dialectical_mode'',
                   ws_topic = ''t'', ws_status = in_progress, ws_messages = [],
                   ws_final_report = None, ws_created = ''c'', ws_updated = ''u'',
                   ws_total_rounds = 1, ws_agent_count = 3\<rparr>)]
   \<and> refetchSessions_calls (apply_event sample_server (''T3'', ''session_complete'', session_payload ''s1'')
      (apply_events sample_server
        [(''T1'', ''session_created'', session_payload ''s1''),
         (''T2'', ''agent_start'', start_payload ''A'' 1)] initial_state)) = Suc 0"
proof -
  let ?st = "apply_events sample_server
        [(''T1'', ''session_created'', session_payload ''s1''),
         (''T2'', ''agent_start'', start_payload ''A'' 1)] initial_state"
  have st: "sessionId ?st = ''s1''" "fetched ?st = []" "queryData ?st = []"
    "refetchSessions_calls ?st = 0"
    "streamingMessages ?st
       = [(''A-1'', \<lparr>agent_id = ''A'', agent_name = ''A'', content = [], round_number = 1,
                      timestamp = ''T2'', isComplete = False, tool_calls = None\<rparr>)]"
    by (simp_all add: apply_event_def handle_data_def Let_def reset_event_type_def start_payload_def
        session_payload_def no_fields_def initial_state_def on_agent_start_def map_has_def
        map_set_def key_of_def string_of_nat.simps digit_char_def)
  have d: "data_session_id (session_payload ''s1'') = Some ''s1''" "''s1'' \<noteq> []"
    by (simp_all add: session_payload_def no_fields_def)
  from session_complete_effect [OF d, where gs = sample_server and now = "''T3''" and st = ?st]
  show ?thesis
    by (simp add: st sample_server_def mark_all_complete_def del: apply_events.simps One_nat_def)
qed

text \<open>
  Without an earlier \<open>session_created\<close> event the records are marked but nothing is
  fetched, so the fetch the claim promised for every \<open>session_complete\<close> is missing.
\<close>

theorem session_complete_effect_counterexample:
  "fetched (apply_events sample_server
      [(''T1'', ''agent_start'', start_payload ''A'' 1),
       (''T2'', ''session_complete'', session_payload ''s1'')] initial_state) = []
   \<and> map (\<lambda>(k, rec). (k, isComplete rec)) (streamingMessages (apply_events sample_server
      [(''T1'', ''agent_start'', start_payload ''A'' 1),
       (''T2'', ''session_complete'', session_payload ''s1'')] initial_state)) = [(''A-1'', True)]"
  by (simp add: apply_event_def handle_data_def Let_def reset_event_type_def start_payload_def
        session_payload_def no_fields_def initial_state_def on_agent_start_def map_has_def
        map_set_def mark_all_complete_def key_of_def string_of_nat.simps digit_char_def)

subsection \<open>Where the reading loop stops\<close>

text \<open>
  An event of the stream, that is its \<open>event:\<close> line and its \<open>data:\<close> line, is
  handled by the loop as \<open>apply_event\<close> says.
\<close>

lemma process_lines_append:
  "process_lines jp gs (ls1 @ ls2) st = process_lines jp gs ls2 (process_lines jp gs ls1 st)"
  by (induction ls1 arbitrary: st) auto

lemma event_as_lines:
  assumes "startsWith l1 ''event:''" and "trim (drop 6 l1) = ty"
    and "startsWith l2 ''data:''" and "trim (drop 5 l2) \<noteq> []"
    and "jp (trim (drop 5 l2)) = Some (JsonObject d)"
  shows "process_lines jp gs [(t, l1), (now, l2)] st = apply_event gs (now, ty, d) st"
  using assms data_line_not_event [OF assms(3)]
  by (simp add: process_line_def apply_event_def Let_def)

text \<open>
  Claim C3, as the code has it.  The loop has no exit at a \<open>session_complete\<close> or
  \<open>error\<close> event.  It handles every chunk it reads, whatever events the chunks hold,
  until \<open>read\<close> reports the end of the stream or throws; what comes after that is not
  read.  While neither has happened the call is still waiting.  Within the chunks, the
  lines after any line are handled from the state that line left.
\<close>

theorem read_loop_runs_to_end:
  "read_loop jp gs (map (\<lambda>(clock, chunk). Value clock chunk) cs @ Done # rest) st
     = (StreamDone, process_chunks jp gs cs st)
   \<and> read_loop jp gs (map (\<lambda>(clock, chunk). Value clock chunk) cs @ ReadThrows e # rest) st
     = (Thrown e, process_chunks jp gs cs st)
   \<and> read_loop jp gs (map (\<lambda>(clock, chunk). Value clock chunk) cs) st
     = (Pending, process_chunks jp gs cs st)
   \<and> process_lines jp gs (ls1 @ ls2) st = process_lines jp gs ls2 (process_lines jp gs ls1 st)"
proof -
  have "read_loop jp gs (map (\<lambda>(clock, chunk). Value clock chunk) cs @ tl) st
          = read_loop jp gs tl (process_chunks jp gs cs st)" for tl
    by (induction cs arbitrary: st) auto
  from this [of "Done # rest"] this [of "ReadThrows e # rest"] this [of "[]"]
  show ?thesis
    by (simp add: process_lines_append)
qed

text \<open>
  The claim as stated fails: an \<open>agent_start\<close> event that arrives after
  \<open>session_complete\<close>, or after \<open>error\<close>, adds its record to the map.
\<close>

theorem terminal_event_counterexample:
  \<open>streamingMessages (snd (read_loop sample_parse sample_server
       [Value sample_clock (''event: session_complete'' @ [CHR 0x0A] @ ''data: {"session_id":"s1"}'')]
       initial_state)) = []
   \<and> streamingMessages (snd (read_loop sample_parse sample_server
       [Value sample_clock (''event: session_complete'' @ [CHR 0x0A] @ ''data: {"session_id":"s1"}''),
        Value sample_clock (''event: agent_start'' @ [CHR 0x0A] @ ''data: {"agent_id":"A","round":1}'')]
       initial_state))
     = [(''A-1'', \<lparr>agent_id = ''A'', agent_name = ''A'', content = [], round_number = 1,
                    timestamp = ''T1'', isComplete = False, tool_calls = None\<rparr>)]
   \<and> streamingMessages (snd (read_loop sample_parse sample_server
       [Value sample_clock (''event: error'' @ [CHR 0x0A] @ ''data: {"error":"boom"}''),
        Value sample_clock (''event: agent_start'' @ [CHR 0x0A] @ ''data: {"agent_id":"A","round":1}'')]
       initial_state))
     = [(''A-1'', \<lparr>agent_id = ''A'', agent_name = ''A'', content = [], round_number = 1,
                    timestamp = ''T1'', isComplete = False, tool_calls = None\<rparr>)]\<close>
  by (simp add: process_chunk_def process_line_def startsWith_def trim_def is_space_def
        sample_parse_def sample_clock_def handle_data_def Let_def reset_event_type_def
        session_payload_def start_payload_def error_payload_def no_fields_def initial_state_def
        on_agent_start_def map_has_def map_set_def mark_all_complete_def key_of_def
        string_of_nat.simps digit_char_def upt_rec)

subsection \<open>The fallback to polling\<close>

text \<open>
  \<open>pollSessionUntilComplete\<close> returns the first session whose status is \<open>completed\<close>
  or \<open>failed\<close>, after one request for that session and one for each answer before it;
  a rejected request ends it with the rejection.
\<close>

lemma poll_first_terminal:
  assumes "\<forall>i<n. \<exists>s'. getSession (j + i) sid = Some s' \<and> ws_status s' \<noteq> completed \<and> ws_status s' \<noteq> failed"
    and "getSession (j + n) sid = Some s"
    and "ws_status s = completed \<or> ws_status s = failed"
  shows "\<exists>ups. poll getSession sid j ups0 = Some (Resolved s, Suc (j + n), ups)"
  using assms
proof (induction n arbitrary: j ups0)
  case 0
  then show ?case
    by (subst poll.simps) auto
next
  case (Suc n)
  from Suc.prems(1) obtain s0 where s0: "getSession j sid = Some s0"
    "ws_status s0 \<noteq> completed" "ws_status s0 \<noteq> failed"
    by force
  have later: "\<forall>i<n. \<exists>s'. getSession (Suc j + i) sid = Some s' \<and> ws_status s' \<noteq> completed \<and> ws_status s' \<noteq> failed"
  proof (intro allI impI)
    fix i assume "i < n"
    then have "Suc i < Suc n" by simp
    with Suc.prems(1) show "\<exists>s'. getSession (Suc j + i) sid = Some s' \<and> ws_status s' \<noteq> completed \<and> ws_status s' \<noteq> failed"
      by (metis add_Suc_shift)
  qed
  from Suc.prems(2) have last: "getSession (Suc j + n) sid = Some s" by simp
  from Suc.IH [OF later last Suc.prems(3), of "ups0 @ [s0]"] obtain ups where
    "poll getSession sid (Suc j) (ups0 @ [s0]) = Some (Resolved s, Suc (Suc j + n), ups)"
    by blast
  then show ?case
    using s0 by (subst poll.simps) simp
qed

lemma poll_rejected:
  "getSession j sid = None \<Longrightarrow> poll getSession sid j ups = Some (Rejected, Suc j, ups)"
  by (subst poll.simps) simp

lemma poll_sample:
  "\<exists>ups. pollSessionUntilComplete sample_server ''s1''
     = Some (Resolved \<lparr>ws_id = ''s1'', ws_notebook_id = ''nb'', ws_mode = ''dialectical_mode'',
                       ws_topic = ''t'', ws_status = completed, ws_messages = [],
                       ws_final_report = None, ws_created = ''c'', ws_updated = ''u'',
                       ws_total_rounds = 1, ws_agent_count = 3\<rparr>, 3, ups)"
  unfolding pollSessionUntilComplete_def
  using poll_first_terminal [where getSession = sample_server and j = 0 and n = 2 and sid = "''s1''"
      and ?ups0.0 = "[]"]
  by (simp add: sample_server_def numeral_3_eq_3)

text \<open>
  When a read throws, the outer \<open>catch\<close> starts polling for the session id that the
  state held when the call began, if there was one.
\<close>

lemma fallback_uses_captured_id:
  assumes "currentSessionId hook = Some old" and "old \<noteq> []"
  shows "polling_started (createSessionWithStreaming jp gs (Response True (Some [ReadThrows OtherError])) hook)
           = polling_started hook @ [old]"
  using assms
  by (simp add: createSessionWithStreaming_def stopStreaming_def on_stream_error_def Let_def)

text \<open>
  Claim C4.  The claim asks that a transport failure before any terminal event makes
  the client poll the session of the stream until its status is terminal.  On a hook
  that has just been mounted the code does not: the stream announces the session
  \<open>s1\<close> and then a read fails; the toast announces the fallback, the state holds the
  id \<open>s1\<close>, and \<open>startPolling\<close> is never called, because the \<open>catch\<close> block tests the
  \<open>currentSessionId\<close> of the render that created the callback, which is still \<open>null\<close>.
\<close>

theorem fallback_never_polls:
  \<open>polling_started (createSessionWithStreaming sample_parse sample_server
       (Response True (Some
          [Value sample_clock (''event: session_created'' @ [CHR 0x0A] @ ''data: {"session_id":"s1"}''),
           Value sample_clock (''event: agent_start'' @ [CHR 0x0A] @ ''data: {"agent_id":"A","round":1}''),
           ReadThrows OtherError]))
       initial_state) = []
   \<and> currentSessionId (createSessionWithStreaming sample_parse sample_server
       (Response True (Some
          [Value sample_clock (''event: session_created'' @ [CHR 0x0A] @ ''data: {"session_id":"s1"}''),
           Value sample_clock (''event: agent_start'' @ [CHR 0x0A] @ ''data: {"agent_id":"A","round":1}''),
           ReadThrows OtherError]))
       initial_state) = Some ''s1''
   \<and> toasts (createSessionWithStreaming sample_parse sample_server
       (Response True (Some
          [Value sample_clock (''event: session_created'' @ [CHR 0x0A] @ ''data: {"session_id":"s1"}''),
           Value sample_clock (''event: agent_start'' @ [CHR 0x0A] @ ''data: {"agent_id":"A","round":1}''),
           ReadThrows OtherError]))
       initial_state) = [ToastError ''Streaming error, falling back to polling...'']\<close>
  by (simp add: createSessionWithStreaming_def stopStreaming_def on_stream_error_def
        process_chunk_def process_line_def startsWith_def trim_def is_space_def
        sample_parse_def sample_clock_def handle_data_def Let_def reset_event_type_def
        session_payload_def start_payload_def no_fields_def initial_state_def
        on_agent_start_def map_has_def map_set_def key_of_def
        string_of_nat.simps digit_char_def upt_rec)

end
